theory Spec2Isabelle
  imports Main "HOL-Library.Word"
begin

unbundle bit_operations_syntax

section \<open>Operation identifiers of the Arcadia timelock scripts\<close>

text \<open>
  This theory embeds the operation-identifier computation of
  \<^verbatim>\<open>backend/scripts/demo_verify.js\<close> (\<^verbatim>\<open>computeOpIdSingle\<close>, \<^verbatim>\<open>computeOpIdBatch\<close>;
  the file \<^verbatim>\<open>src/unnamed/part_000\<close>) and the salt helper and polling loop of
  \<^verbatim>\<open>scripts/timelockHelper.js\<close> (\<^verbatim>\<open>mkSalt\<close>, \<^verbatim>\<open>cmdVerify\<close>; in
  \<^verbatim>\<open>src/unnamed/part_001\<close>).

  The scripts call the ethers library for hex strings, ABI encoding and hashing.
  Those calls are modelled here by their documented behaviour on the arguments the
  scripts pass; the Keccak-256 digest itself is a parameter \<open>H\<close> of every function that
  hashes, so that each general theorem holds for any digest function, and the real
  function \<open>keccak_256\<close> (defined below from the Keccak specification) is used where a
  closed example is evaluated.

  The timelock contract itself is OpenZeppelin's \<^verbatim>\<open>TimelockController\<close>, which
  \<^verbatim>\<open>contracts/ArcadiaTimelock.sol\<close> only inherits; its \<^verbatim>\<open>hashOperation\<close> is not among
  the sources embedded here, and no statement of this theory is about it. The polling
  loop sees the contract through the answers of its three read functions.
\<close>

subsection \<open>Bytes, errors and JavaScript values\<close>

type_synonym byte = "8 word"
type_synonym bytes = "byte list"
type_synonym digest = "256 word"
type_synonym address = "160 word"

text \<open>
  Failures are values. \<open>EncodingError\<close> stands for every argument error ethers throws
  (a string that is not hex, a \<^verbatim>\<open>bytes32\<close> of the wrong length, a number outside
  \<^verbatim>\<open>uint256\<close>); \<open>TimeoutError\<close> is the \<^verbatim>\<open>throw new Error("timeout")\<close> of
  \<^verbatim>\<open>cmdVerify\<close>; \<open>TransportError\<close> is a rejected read of the timelock contract.
  \<open>ValidationError\<close> is the error kind the specification names for mismatched batch
  arrays.
\<close>

datatype error = EncodingError | ValidationError | TimeoutError | TransportError

text \<open>Sequencing: the first failure ends the computation, as a thrown exception does.\<close>

definition andThen :: "error + 'a \<Rightarrow> ('a \<Rightarrow> error + 'b) \<Rightarrow> error + 'b" where
  "andThen m f = (case m of Inl e \<Rightarrow> Inl e | Inr x \<Rightarrow> f x)"

text \<open>
  The optional parameters \<^verbatim>\<open>predecessorHex\<close>, \<^verbatim>\<open>saltHex\<close> and \<^verbatim>\<open>provided\<close> are hex
  strings, \<^verbatim>\<open>null\<close> or \<^verbatim>\<open>undefined\<close>. JavaScript's \<^verbatim>\<open>!x\<close> and \<^verbatim>\<open>x || y\<close> treat
  \<^verbatim>\<open>null\<close>, \<^verbatim>\<open>undefined\<close> and the empty string as false.
\<close>

datatype js = JNull | JUndefined | JStr string

fun truthy :: "js \<Rightarrow> bool" where
  "truthy (JStr s) = (s \<noteq> [])"
| "truthy JNull = False"
| "truthy JUndefined = False"

fun or_default :: "js \<Rightarrow> string \<Rightarrow> string" where
  "or_default (JStr s) d = (if s \<noteq> [] then s else d)"
| "or_default JNull d = d"
| "or_default JUndefined d = d"

fun js_str :: "js \<Rightarrow> string" where
  "js_str (JStr s) = s"
| "js_str JNull = []"
| "js_str JUndefined = []"

definition ZeroBytes32 :: string where
  "ZeroBytes32 = ''0x'' @ replicate 64 (CHR ''0'')"

subsection \<open>Hex strings (ethers \<^verbatim>\<open>getBytes\<close>, \<^verbatim>\<open>hexlify\<close>, \<^verbatim>\<open>concat\<close>)\<close>

definition hex_chars :: string where
  "hex_chars = ''0123456789abcdef''"

definition hex_digit :: "nat \<Rightarrow> char" where
  "hex_digit k = hex_chars ! (k mod 16)"

definition hex_value :: "char \<Rightarrow> nat option" where
  "hex_value c =
     (let n = of_char c :: nat in
      if 48 \<le> n \<and> n \<le> 57 then Some (n - 48)
      else if 97 \<le> n \<and> n \<le> 102 then Some (n - 87)
      else if 65 \<le> n \<and> n \<le> 70 then Some (n - 55)
      else None)"

text \<open>\<^verbatim>\<open>(?:[0-9a-f][0-9a-f])*\<close> with the \<^verbatim>\<open>i\<close> flag, each pair read by \<^verbatim>\<open>parseInt(.., 16)\<close>.\<close>

fun hex_pairs :: "string \<Rightarrow> bytes option" where
  "hex_pairs [] = Some []"
| "hex_pairs [c] = None"
| "hex_pairs (c # d # rest) =
     (case (hex_value c, hex_value d, hex_pairs rest) of
        (Some h, Some l, Some bs) \<Rightarrow> Some (of_nat (16 * h + l) # bs)
      | _ \<Rightarrow> None)"

text \<open>
  A \<^verbatim>\<open>BytesLike\<close> argument is a hex string or a \<^verbatim>\<open>Uint8Array\<close>. \<^verbatim>\<open>getBytes\<close> accepts a
  string that matches \<^verbatim>\<open>/^0x(?:[0-9a-f][0-9a-f])*$/i\<close> and throws otherwise.
\<close>

datatype bytes_like = Hex string | Raw bytes

fun getBytes :: "bytes_like \<Rightarrow> error + bytes" where
  "getBytes (Raw b) = Inr b"
| "getBytes (Hex (z # x # rest)) =
     (if z = CHR ''0'' \<and> (x = CHR ''x'' \<or> x = CHR ''X'')
      then (case hex_pairs rest of Some bs \<Rightarrow> Inr bs | None \<Rightarrow> Inl EncodingError)
      else Inl EncodingError)"
| "getBytes (Hex s) = Inl EncodingError"

definition hex_of_byte :: "byte \<Rightarrow> string" where
  "hex_of_byte b = [hex_digit (unat b div 16), hex_digit (unat b mod 16)]"

definition hexlify :: "bytes \<Rightarrow> string" where
  "hexlify bs = ''0x'' @ concat (map hex_of_byte bs)"


subsection \<open>32-byte words and hashing\<close>

text \<open>Big-endian bytes of a number, \<open>k\<close> of them (the low \<open>k\<close> bytes when it is larger).\<close>

fun be_bytes :: "nat \<Rightarrow> nat \<Rightarrow> bytes" where
  "be_bytes 0 n = []"
| "be_bytes (Suc k) n = be_bytes k (n div 256) @ [of_nat (n mod 256)]"

definition be_nat :: "bytes \<Rightarrow> nat" where
  "be_nat bs = foldl (\<lambda>a b. 256 * a + unat b) 0 bs"

definition word32 :: "nat \<Rightarrow> bytes" where
  "word32 n = be_bytes 32 n"

definition digest_bytes :: "digest \<Rightarrow> bytes" where
  "digest_bytes d = word32 (unat d)"

text \<open>
  \<^verbatim>\<open>ethers.keccak256(data)\<close>: the bytes of \<open>data\<close> are hashed and the digest is returned as
  a hex string of 32 bytes.
\<close>

definition keccak256 :: "(bytes \<Rightarrow> digest) \<Rightarrow> bytes_like \<Rightarrow> error + string" where
  "keccak256 H x = andThen (getBytes x) (\<lambda>b. Inr (hexlify (digest_bytes (H b))))"

subsection \<open>ABI encoding (ethers \<^verbatim>\<open>AbiCoder.encode\<close>)\<close>

text \<open>
  An argument of \<^verbatim>\<open>abiCoder.encode(types, values)\<close>: the type string together with the
  value at the same position. These are the six types the scripts encode. An address
  is a valid 20-byte address, a number is any integer (the coder rejects one outside
  \<^verbatim>\<open>uint256\<close>), and \<^verbatim>\<open>bytes32\<close> and \<^verbatim>\<open>bytes\<close> values are hex strings.
\<close>

datatype abi_arg =
    Address address
  | Uint256 int
  | Bytes32 string
  | Bytes string
  | AddressArray "address list"
  | Uint256Array "int list"

definition enc_address :: "address \<Rightarrow> bytes" where
  "enc_address a = word32 (unat a)"

definition enc_uint256 :: "int \<Rightarrow> error + bytes" where
  "enc_uint256 v = (if 0 \<le> v \<and> v < 2 ^ 256 then Inr (word32 (nat v)) else Inl EncodingError)"

fun enc_uint256s :: "int list \<Rightarrow> error + bytes" where
  "enc_uint256s [] = Inr []"
| "enc_uint256s (v # vs) =
     andThen (enc_uint256 v) (\<lambda>b. andThen (enc_uint256s vs) (\<lambda>bs. Inr (b @ bs)))"

definition pad_right :: "bytes \<Rightarrow> bytes" where
  "pad_right b = b @ replicate ((32 - length b mod 32) mod 32) 0"

fun is_dynamic :: "abi_arg \<Rightarrow> bool" where
  "is_dynamic (Address a) = False"
| "is_dynamic (Uint256 v) = False"
| "is_dynamic (Bytes32 s) = False"
| "is_dynamic (Bytes s) = True"
| "is_dynamic (AddressArray as) = True"
| "is_dynamic (Uint256Array vs) = True"

text \<open>
  What the coder of one argument writes: one word for a static value; for a dynamic
  value the length word followed by the contents (padded to whole words for
  \<^verbatim>\<open>bytes\<close>).
\<close>

fun encode_arg :: "abi_arg \<Rightarrow> error + bytes" where
  "encode_arg (Address a) = Inr (enc_address a)"
| "encode_arg (Uint256 v) = enc_uint256 v"
| "encode_arg (Bytes32 s) =
     andThen (getBytes (Hex s)) (\<lambda>b. if length b = 32 then Inr b else Inl EncodingError)"
| "encode_arg (Bytes s) =
     andThen (getBytes (Hex s)) (\<lambda>b. Inr (word32 (length b) @ pad_right b))"
| "encode_arg (AddressArray as) = Inr (word32 (length as) @ concat (map enc_address as))"
| "encode_arg (Uint256Array vs) =
     andThen (enc_uint256s vs) (\<lambda>b. Inr (word32 (length vs) @ b))"

text \<open>
  The tuple coder: static values are written to the head in order; a dynamic value
  is written to the tail and its head word is the offset of its tail from the start
  of the encoding (\<open>base\<close> is the size of the whole head).
\<close>

fun pack :: "nat \<Rightarrow> abi_arg list \<Rightarrow> bytes \<Rightarrow> bytes \<Rightarrow> error + bytes" where
  "pack base [] heads tails = Inr (heads @ tails)"
| "pack base (a # as) heads tails =
     andThen (encode_arg a) (\<lambda>b.
       if is_dynamic a then pack base as (heads @ word32 (base + length tails)) (tails @ b)
       else pack base as (heads @ b) tails)"

definition abi_encode :: "abi_arg list \<Rightarrow> error + string" where
  "abi_encode args = andThen (pack (32 * length args) args [] []) (\<lambda>b. Inr (hexlify b))"

subsection \<open>\<^verbatim>\<open>computeOpIdSingle\<close> and \<^verbatim>\<open>computeOpIdBatch\<close>\<close>

record op_result =
  opId :: string
  salt :: string

text \<open>
  \<^verbatim>\<open>computeOpIdSingle(target, value, dataHex, predecessorHex, saltHex)\<close>. The coder
  created at the start of the function is ethers' default ABI coder.
\<close>

definition computeOpIdSingle ::
  "(bytes \<Rightarrow> digest) \<Rightarrow> address \<Rightarrow> int \<Rightarrow> string \<Rightarrow> js \<Rightarrow> js \<Rightarrow> error + op_result" where
  "computeOpIdSingle H target value dataHex predecessorHex saltHex =
     andThen (keccak256 H (Hex dataHex)) (\<lambda>innerHash.
       let predecessor = or_default predecessorHex ZeroBytes32 in
       andThen
         (if \<not> truthy saltHex
          then andThen (abi_encode [Bytes dataHex, Address target, Uint256 value, Bytes32 predecessor])
                 (\<lambda>packed. keccak256 H (Hex packed))
          else Inr (js_str saltHex))
         (\<lambda>salt.
            andThen (abi_encode [Address target, Uint256 value, Bytes32 innerHash,
                                 Bytes32 predecessor, Bytes32 salt])
              (\<lambda>encoded. andThen (keccak256 H (Hex encoded))
                 (\<lambda>opId. Inr \<lparr>opId = opId, salt = salt\<rparr>))))"



subsection \<open>\<^verbatim>\<open>mkSalt\<close> of the command-line helper\<close>




subsection \<open>The polling loop of \<^verbatim>\<open>cmdVerify\<close>\<close>

text \<open>
  The loop reads three predicates of the timelock contract, reads the clock and
  sleeps. These effects are functions of an explicit world \<open>'w\<close> supplied by the
  venue: a read returns its answer (\<open>None\<close> when the call is rejected) and the next
  world, \<open>Date_now\<close> reads the clock in milliseconds, \<open>setTimeout\<close> is the awaited timer.
\<close>

record 'w venue =
  isOperationReady :: "string \<Rightarrow> 'w \<Rightarrow> bool option \<times> 'w"
  isOperationDone :: "string \<Rightarrow> 'w \<Rightarrow> bool option \<times> 'w"
  isOperationPending :: "string \<Rightarrow> 'w \<Rightarrow> bool option \<times> 'w"
  Date_now :: "'w \<Rightarrow> int"
  setTimeout :: "int \<Rightarrow> 'w \<Rightarrow> 'w"

record verify_result =
  v_opId :: string
  v_ready :: bool
  v_done :: bool
  v_pending :: bool

text \<open>
  The trace records each effect in the order the loop performs it: a completed
  read with its answer, an evaluation of the timeout condition with the elapsed
  milliseconds it compared, and a sleep with its delay.
\<close>

datatype event = ReadReady bool | ReadDone bool | ReadPending bool | CheckTimeout int | Sleep int

text \<open>
  One equation per iteration of \<^verbatim>\<open>while (true)\<close>; \<open>None\<close> when \<open>fuel\<close> iterations did
  not end the loop. A rejected read leaves the function with that failure. The
  condition \<^verbatim>\<open>(Date.now() - start) / 1000 > timeout\<close> is \<open>elapsed > timeout * 1000\<close> on
  the elapsed milliseconds.
\<close>

fun poll ::
  "nat \<Rightarrow> 'w venue \<Rightarrow> string \<Rightarrow> int \<Rightarrow> int \<Rightarrow> int \<Rightarrow> 'w \<Rightarrow> event list
     \<Rightarrow> ((error + verify_result) \<times> 'w \<times> event list) option" where
  "poll 0 V ident interval timeout start w tr = None"
| "poll (Suc fuel) V ident interval timeout start w tr =
     (case isOperationReady V ident w of
        (None, w1) \<Rightarrow> Some (Inl TransportError, w1, tr)
      | (Some ready, w1) \<Rightarrow>
     (case isOperationDone V ident w1 of
        (None, w2) \<Rightarrow> Some (Inl TransportError, w2, tr @ [ReadReady ready])
      | (Some dn, w2) \<Rightarrow>
     (case isOperationPending V ident w2 of
        (None, w3) \<Rightarrow> Some (Inl TransportError, w3, tr @ [ReadReady ready, ReadDone dn])
      | (Some pending, w3) \<Rightarrow>
          (let tr3 = tr @ [ReadReady ready, ReadDone dn, ReadPending pending] in
           if ready
           then Some (Inr \<lparr>v_opId = ident, v_ready = True, v_done = dn, v_pending = pending\<rparr>,
                      w3, tr3)
           else if dn
           then Some (Inr \<lparr>v_opId = ident, v_ready = False, v_done = True, v_pending = False\<rparr>,
                      w3, tr3)
           else (let elapsed = Date_now V w3 - start in
                 if elapsed > timeout * 1000
                 then Some (Inl TimeoutError, w3, tr3 @ [CheckTimeout elapsed])
                 else poll fuel V ident interval timeout start
                        (setTimeout V (interval * 1000) w3)
                        (tr3 @ [CheckTimeout elapsed, Sleep (interval * 1000)]))))))"

text \<open>
  \<^verbatim>\<open>cmdVerify\<close> from \<^verbatim>\<open>const start = Date.now()\<close> on, with the identifier, the interval
  and the timeout (in seconds) it has determined before.
\<close>

definition cmdVerify_poll ::
  "nat \<Rightarrow> 'w venue \<Rightarrow> string \<Rightarrow> int \<Rightarrow> int \<Rightarrow> 'w
     \<Rightarrow> ((error + verify_result) \<times> 'w \<times> event list) option" where
  "cmdVerify_poll fuel V ident interval timeout w =
     poll fuel V ident interval timeout (Date_now V w) w []"

subsection \<open>Well-formed arguments and the encodings written out\<close>

definition is_uint256 :: "int \<Rightarrow> bool" where
  "is_uint256 v \<longleftrightarrow> 0 \<le> v \<and> v < 2 ^ 256"

text \<open>\<open>hex32 s b\<close>: the string \<open>s\<close> is hex and denotes the 32 bytes \<open>b\<close>.\<close>

definition hex32 :: "string \<Rightarrow> bytes \<Rightarrow> bool" where
  "hex32 s b \<longleftrightarrow> getBytes (Hex s) = Inr b \<and> length b = 32"

definition enc_values :: "int list \<Rightarrow> bytes" where
  "enc_values vs = concat (map (\<lambda>v. word32 (nat v)) vs)"






subsection \<open>Keccak-256\<close>

text \<open>
  The digest function of \<^verbatim>\<open>ethers.keccak256\<close>, from the Keccak specification: a sponge
  of rate 136 bytes over the permutation Keccak-f[1600], with the padding byte
  \<^verbatim>\<open>0x01\<close> and final bit \<^verbatim>\<open>0x80\<close>. A lane is its 64 bits, least significant first; the
  state is the 25 lanes, lane \<open>(x, y)\<close> at position \<open>x + 5 * y\<close>.
\<close>

type_synonym lane = "bool list"

definition xorl :: "lane \<Rightarrow> lane \<Rightarrow> lane" where
  "xorl a b = map2 (\<noteq>) a b"

definition andnot :: "lane \<Rightarrow> lane \<Rightarrow> lane" where
  "andnot a b = map2 (\<lambda>x y. \<not> x \<and> y) a b"

definition rotl :: "nat \<Rightarrow> lane \<Rightarrow> lane" where
  "rotl n w = drop (64 - n) w @ take (64 - n) w"

definition theta :: "lane list \<Rightarrow> lane list" where
  "theta s =
     (let c = map (\<lambda>x. xorl (s ! x) (xorl (s ! (x + 5)) (xorl (s ! (x + 10))
                          (xorl (s ! (x + 15)) (s ! (x + 20)))))) [0, 1, 2, 3, 4];
          d = map2 xorl (last c # butlast c) (map (rotl 1) (rotate1 c))
      in map2 xorl s (d @ d @ d @ d @ d))"

text \<open>Position by position: the lane that moves there and the rotation it undergoes.\<close>

definition rho_pi_table :: "(nat \<times> nat) list" where
  "rho_pi_table = [(0, 0), (6, 44), (12, 43), (18, 21), (24, 14),
                   (3, 28), (9, 20), (10, 3), (16, 45), (22, 61),
                   (1, 1), (7, 6), (13, 25), (19, 8), (20, 18),
                   (4, 27), (5, 36), (11, 10), (17, 15), (23, 56),
                   (2, 62), (8, 55), (14, 39), (15, 41), (21, 2)]"

definition rho_pi :: "lane list \<Rightarrow> lane list" where
  "rho_pi s = map (\<lambda>(i, r). rotl r (s ! i)) rho_pi_table"

definition chi_row :: "lane list \<Rightarrow> lane list" where
  "chi_row r = map2 xorl r (map2 andnot (rotate1 r) (rotate1 (rotate1 r)))"

fun chi :: "lane list \<Rightarrow> lane list" where
  "chi [] = []"
| "chi s = chi_row (take 5 s) @ chi (drop 5 s)"

fun iota :: "lane \<Rightarrow> lane list \<Rightarrow> lane list" where
  "iota rc [] = []"
| "iota rc (a # s) = xorl a rc # s"

definition bits_of_byte :: "byte \<Rightarrow> bool list" where
  "bits_of_byte b = map (bit b) [0, 1, 2, 3, 4, 5, 6, 7]"

definition byte_of_bits :: "bool list \<Rightarrow> byte" where
  "byte_of_bits bs = horner_sum of_bool 2 bs"

text \<open>The 24 round constants, each as its eight bytes, least significant first.\<close>

definition round_constants :: "bytes list" where
  "round_constants =
     [[0x01, 0, 0, 0, 0, 0, 0, 0], [0x82, 0x80, 0, 0, 0, 0, 0, 0],
      [0x8A, 0x80, 0, 0, 0, 0, 0, 0x80], [0x00, 0x80, 0x00, 0x80, 0, 0, 0, 0x80],
      [0x8B, 0x80, 0, 0, 0, 0, 0, 0], [0x01, 0x00, 0x00, 0x80, 0, 0, 0, 0],
      [0x81, 0x80, 0x00, 0x80, 0, 0, 0, 0x80], [0x09, 0x80, 0, 0, 0, 0, 0, 0x80],
      [0x8A, 0, 0, 0, 0, 0, 0, 0], [0x88, 0, 0, 0, 0, 0, 0, 0],
      [0x09, 0x80, 0x00, 0x80, 0, 0, 0, 0], [0x0A, 0x00, 0x00, 0x80, 0, 0, 0, 0],
      [0x8B, 0x80, 0x00, 0x80, 0, 0, 0, 0], [0x8B, 0, 0, 0, 0, 0, 0, 0x80],
      [0x89, 0x80, 0, 0, 0, 0, 0, 0x80], [0x03, 0x80, 0, 0, 0, 0, 0, 0x80],
      [0x02, 0x80, 0, 0, 0, 0, 0, 0x80], [0x80, 0, 0, 0, 0, 0, 0, 0x80],
      [0x0A, 0x80, 0, 0, 0, 0, 0, 0], [0x0A, 0x00, 0x00, 0x80, 0, 0, 0, 0x80],
      [0x81, 0x80, 0x00, 0x80, 0, 0, 0, 0x80], [0x80, 0x80, 0, 0, 0, 0, 0, 0x80],
      [0x01, 0x00, 0x00, 0x80, 0, 0, 0, 0], [0x08, 0x80, 0x00, 0x80, 0, 0, 0, 0x80]]"

definition keccak_round :: "lane list \<Rightarrow> bytes \<Rightarrow> lane list" where
  "keccak_round s rc = iota (concat (map bits_of_byte rc)) (chi (rho_pi (theta s)))"

definition keccak_f :: "lane list \<Rightarrow> lane list" where
  "keccak_f s = foldl keccak_round s round_constants"

fun chunks :: "nat \<Rightarrow> 'a list \<Rightarrow> 'a list list" where
  "chunks k [] = []"
| "chunks k xs = (if k = 0 then [xs] else take k xs # chunks k (drop k xs))"

definition pad :: "bytes \<Rightarrow> bytes" where
  "pad m = (let q = 136 - length m mod 136
            in if q = 1 then m @ [0x81] else m @ [0x01] @ replicate (q - 2) 0 @ [0x80])"

definition absorb :: "lane list \<Rightarrow> bytes \<Rightarrow> lane list" where
  "absorb s blk =
     keccak_f (map2 xorl s (chunks 64 (concat (map bits_of_byte blk))
                              @ replicate 8 (replicate 64 False)))"

definition keccak_bytes :: "bytes \<Rightarrow> bytes" where
  "keccak_bytes m =
     map byte_of_bits (chunks 8 (concat (take 4
       (foldl absorb (replicate 25 (replicate 64 False)) (chunks 136 (pad m))))))"

definition keccak_256 :: "bytes \<Rightarrow> digest" where
  "keccak_256 m = of_nat (be_nat (keccak_bytes m))"

subsection \<open>Predicates on runs of the polling loop\<close>

text \<open>
  \<open>reads_precede tr\<close>: wherever the trace evaluates the timeout condition, the three
  events just before it are the reads of ready, done and pending, in that order.
\<close>

definition reads_precede :: "event list \<Rightarrow> bool" where
  "reads_precede tr \<longleftrightarrow>
     (\<forall>k e. k < length tr \<and> tr ! k = CheckTimeout e \<longrightarrow>
        3 \<le> k \<and> (\<exists>a b c. tr ! (k - 3) = ReadReady a \<and> tr ! (k - 2) = ReadDone b
                           \<and> tr ! (k - 1) = ReadPending c))"

text \<open>The executor answers every read, and never with ready or done.\<close>

definition never_ready_or_done :: "'w venue \<Rightarrow> string \<Rightarrow> bool" where
  "never_ready_or_done V ident \<longleftrightarrow>
     (\<forall>w. fst (isOperationReady V ident w) = Some False)
     \<and> (\<forall>w. fst (isOperationDone V ident w) = Some False)
     \<and> (\<forall>w. fst (isOperationPending V ident w) \<noteq> None)"

text \<open>The clock does not go back during a read and advances during the sleep.\<close>

definition time_passes :: "'w venue \<Rightarrow> string \<Rightarrow> int \<Rightarrow> bool" where
  "time_passes V ident interval \<longleftrightarrow>
     (\<forall>w. Date_now V w \<le> Date_now V (snd (isOperationReady V ident w)))
     \<and> (\<forall>w. Date_now V w \<le> Date_now V (snd (isOperationDone V ident w)))
     \<and> (\<forall>w. Date_now V w \<le> Date_now V (snd (isOperationPending V ident w)))
     \<and> (\<forall>w. Date_now V w < Date_now V (setTimeout V (interval * 1000) w))"

text \<open>
  A mock executor for examples: the world is the clock, every read takes one
  millisecond and gives the same three answers, and a timer lasts exactly its delay.
\<close>

definition mock_venue :: "bool \<Rightarrow> bool \<Rightarrow> bool \<Rightarrow> int venue" where
  "mock_venue r d p =
     \<lparr>isOperationReady = (\<lambda>ident t. (Some r, t + 1)),
      isOperationDone = (\<lambda>ident t. (Some d, t + 1)),
      isOperationPending = (\<lambda>ident t. (Some p, t + 1)),
      Date_now = (\<lambda>t. t),
      setTimeout = (\<lambda>ms t. t + ms)\<rparr>"





section \<open>Lemmas\<close>

subsection \<open>Hex strings\<close>








lemma length_be_bytes: "length (be_bytes k n) = k"
  by (induction k arbitrary: n) simp_all

lemma length_word32: "length (word32 n) = 32"
  by (simp add: word32_def length_be_bytes)


lemma be_nat_append: "be_nat (bs @ [b]) = 256 * be_nat bs + unat b"
  by (simp add: be_nat_def)


subsection \<open>ABI encoding\<close>


lemma enc_uint256s_Inr:
  "enc_uint256s vs = Inr b \<Longrightarrow> (\<forall>v\<in>set vs. is_uint256 v) \<and> b = enc_values vs"
  by (induction vs arbitrary: b)
     (auto simp: enc_values_def enc_uint256_def is_uint256_def andThen_def split: sum.splits if_splits)

lemma encode_bytes32: "hex32 s b \<Longrightarrow> encode_arg (Bytes32 s) = Inr b"
  by (simp add: hex32_def andThen_def)




lemma length_enc_values: "length (enc_values vs) = 32 * length vs"
  by (induction vs) (simp_all add: enc_values_def length_word32)





subsection \<open>Results of the two functions\<close>






subsection \<open>The encodings are injective\<close>












subsection \<open>The only failure is an encoding error\<close>

lemma getBytes_error: "getBytes x = Inl e \<Longrightarrow> e = EncodingError"
  by (cases x rule: getBytes.cases) (auto split: if_splits option.splits)

lemma keccak256_error: "keccak256 H x = Inl e \<Longrightarrow> e = EncodingError"
  by (auto simp: keccak256_def andThen_def split: sum.splits dest: getBytes_error)


lemma enc_uint256s_error: "enc_uint256s vs = Inl e \<Longrightarrow> e = EncodingError"
  by (induction vs) (auto simp: andThen_def enc_uint256_def split: sum.splits if_splits)

lemma encode_arg_error: "encode_arg a = Inl e \<Longrightarrow> e = EncodingError"
  by (cases a)
     (auto simp: andThen_def enc_uint256_def split: sum.splits if_splits
           dest: getBytes_error enc_uint256s_error)

lemma pack_error: "pack base args heads tails = Inl e \<Longrightarrow> e = EncodingError"
  by (induction args arbitrary: heads tails)
     (auto simp: andThen_def split: sum.splits if_splits dest: encode_arg_error)

lemma abi_encode_error: "abi_encode args = Inl e \<Longrightarrow> e = EncodingError"
  by (auto simp: abi_encode_def andThen_def split: sum.splits dest: pack_error)


lemma computeOpIdSingle_error:
  "computeOpIdSingle H target value dataHex predecessorHex saltHex = Inl e \<Longrightarrow> e = EncodingError"
  unfolding computeOpIdSingle_def Let_def andThen_def
  by (auto split: sum.splits if_splits
           dest: keccak256_error abi_encode_error)

subsection \<open>Absent predecessor and salt\<close>


lemma or_default_ZeroBytes32: "or_default (JStr ZeroBytes32) ZeroBytes32 = ZeroBytes32"
  by simp

lemma absent_iff: "x \<in> {JNull, JUndefined, JStr ''''} \<longleftrightarrow> \<not> truthy x"
  by (cases x) simp_all







subsection \<open>Keccak-256 on examples\<close>

text \<open>
  The digest as 32 bytes is the output of the sponge; the published digests of the
  empty string and of \<^verbatim>\<open>abc\<close> are reproduced by evaluation.
\<close>

lemma be_nat_less: "be_nat bs < 256 ^ length bs"
proof (induction bs rule: rev_induct)
  case Nil
  show ?case by (simp add: be_nat_def)
next
  case (snoc b bs)
  have "unat b < 256" using unsigned_less [of b] by simp
  with snoc show ?case by (simp add: be_nat_append)
qed

lemma be_bytes_be_nat: "length bs = k \<Longrightarrow> be_bytes k (be_nat bs) = bs"
proof (induction bs arbitrary: k rule: rev_induct)
  case Nil
  then show ?case by simp
next
  case (snoc b bs)
  have b: "unat b < 256" using unsigned_less [of b] by simp
  from snoc.prems obtain j where k: "k = Suc j" and j: "length bs = j" by (cases k) auto
  have "(256 * be_nat bs + unat b) div 256 = be_nat bs" using b by simp
  moreover have "(256 * be_nat bs + unat b) mod 256 = unat b" using b by simp
  ultimately show ?case using snoc.IH [OF j] by (simp add: k be_nat_append)
qed

lemma digest_bytes_keccak_256:
  assumes "length (keccak_bytes m) = 32"
  shows "digest_bytes (keccak_256 m) = keccak_bytes m"
proof -
  have "be_nat (keccak_bytes m) < 2 ^ 256"
    using be_nat_less [of "keccak_bytes m"] assms by simp
  then have "unat (of_nat (be_nat (keccak_bytes m)) :: digest) = be_nat (keccak_bytes m)"
    by (simp add: unat_of_nat take_bit_nat_eq_self)
  then show ?thesis
    by (simp add: digest_bytes_def keccak_256_def word32_def be_bytes_be_nat assms)
qed

lemma keccak_bytes_empty:
  "keccak_bytes [] =
     [0xc5, 0xd2, 0x46, 0x01, 0x86, 0xf7, 0x23, 0x3c, 0x92, 0x7e, 0x7d, 0xb2, 0xdc, 0xc7, 0x03, 0xc0,
      0xe5, 0x00, 0xb6, 0x53, 0xca, 0x82, 0x27, 0x3b, 0x7b, 0xfa, 0xd8, 0x04, 0x5d, 0x85, 0xa4, 0x70]"
  by code_simp

lemma keccak_bytes_abc:
  "keccak_bytes [0x61, 0x62, 0x63] =
     [0x4e, 0x03, 0x65, 0x7a, 0xea, 0x45, 0xa9, 0x4f, 0xc7, 0xd4, 0x7b, 0xa8, 0x26, 0xc8, 0xd6, 0x67,
      0xc0, 0xd1, 0xe6, 0xe3, 0x3a, 0x64, 0xa0, 0x36, 0xec, 0x44, 0xf5, 0x8f, 0xa1, 0x2d, 0x6c, 0x45]"
  by code_simp

lemma hexlify_empty_digest:
  "hexlify [0xc5, 0xd2, 0x46, 0x01, 0x86, 0xf7, 0x23, 0x3c, 0x92, 0x7e, 0x7d, 0xb2, 0xdc, 0xc7, 0x03, 0xc0,
      0xe5, 0x00, 0xb6, 0x53, 0xca, 0x82, 0x27, 0x3b, 0x7b, 0xfa, 0xd8, 0x04, 0x5d, 0x85, 0xa4, 0x70] =
   ''0xc5d2460186f7233c927e7db2dcc703c0e500b653ca82273b7bfad8045d85a470''"
  by (simp add: hexlify_def hex_of_byte_def hex_digit_def hex_chars_def)

text \<open>\<^verbatim>\<open>ethers.keccak256("0x")\<close>, the digest of the empty byte string.\<close>

lemma keccak256_empty:
  "keccak256 keccak_256 (Hex ''0x'') =
     Inr ''0xc5d2460186f7233c927e7db2dcc703c0e500b653ca82273b7bfad8045d85a470''"
  by (simp add: keccak256_def andThen_def digest_bytes_keccak_256 keccak_bytes_empty
      hexlify_empty_digest)









subsection \<open>The polling loop\<close>

lemma poll_done:
  assumes "isOperationReady V ident w = (Some False, w1)"
    and "isOperationDone V ident w1 = (Some True, w2)"
    and "isOperationPending V ident w2 = (Some p, w3)"
  shows "poll (Suc fuel) V ident interval timeout start w tr =
           Some (Inr \<lparr>v_opId = ident, v_ready = False, v_done = True, v_pending = False\<rparr>, w3,
                 tr @ [ReadReady False, ReadDone True, ReadPending p])"
  using assms by simp

lemma poll_ready:
  assumes "isOperationReady V ident w = (Some True, w1)"
    and "isOperationDone V ident w1 = (Some d, w2)"
    and "isOperationPending V ident w2 = (Some p, w3)"
  shows "poll (Suc fuel) V ident interval timeout start w tr =
           Some (Inr \<lparr>v_opId = ident, v_ready = True, v_done = d, v_pending = p\<rparr>, w3,
                 tr @ [ReadReady True, ReadDone d, ReadPending p])"
  using assms by simp

text \<open>Safety: a timeout is reported only when the elapsed time exceeds the limit.\<close>

lemma poll_timeout_elapsed:
  "poll fuel V ident interval timeout start w tr = Some (Inl TimeoutError, w', tr')
     \<Longrightarrow> timeout * 1000 < Date_now V w' - start"
proof (induction fuel arbitrary: w tr)
  case 0
  then show ?case by simp
next
  case (Suc fuel)
  then show ?case
    by (auto simp: Let_def split: prod.splits option.splits if_splits)
qed

lemma poll_timeout_last:
  "poll fuel V ident interval timeout start w tr = Some (Inl TimeoutError, w', tr')
     \<Longrightarrow> tr' \<noteq> [] \<and> last tr' = CheckTimeout (Date_now V w' - start)"
proof (induction fuel arbitrary: w tr)
  case 0
  then show ?case by simp
next
  case (Suc fuel)
  then show ?case
    by (auto simp: Let_def split: prod.splits option.splits if_splits)
qed

text \<open>The trace invariant: appending a round of the loop keeps \<open>reads_precede\<close>.\<close>

lemma reads_precede_append_noncheck:
  assumes "reads_precede tr" "\<forall>e. CheckTimeout e \<notin> set xs"
  shows "reads_precede (tr @ xs)"
  unfolding reads_precede_def
proof (intro allI impI)
  fix k e
  assume a: "k < length (tr @ xs) \<and> (tr @ xs) ! k = CheckTimeout e"
  show "3 \<le> k \<and> (\<exists>a b c. (tr @ xs) ! (k - 3) = ReadReady a \<and> (tr @ xs) ! (k - 2) = ReadDone b
                           \<and> (tr @ xs) ! (k - 1) = ReadPending c)"
  proof (cases "k < length tr")
    case True
    with a have "tr ! k = CheckTimeout e" by (simp add: nth_append)
    with assms(1) True have "3 \<le> k \<and> (\<exists>a b c. tr ! (k - 3) = ReadReady a \<and> tr ! (k - 2) = ReadDone b
                           \<and> tr ! (k - 1) = ReadPending c)"
      unfolding reads_precede_def by blast
    moreover have "k - 3 < length tr" "k - 2 < length tr" "k - 1 < length tr"
      using True by simp_all
    ultimately show ?thesis by (simp add: nth_append)
  next
    case False
    with a have "xs ! (k - length tr) = CheckTimeout e" "k - length tr < length xs"
      by (auto simp: nth_append)
    then have "CheckTimeout e \<in> set xs" by (metis nth_mem)
    with assms(2) show ?thesis by blast
  qed
qed

lemma reads_precede_round:
  assumes "reads_precede tr"
  shows "reads_precede (tr @ [ReadReady a, ReadDone b, ReadPending c, CheckTimeout e])"
  unfolding reads_precede_def
proof (intro allI impI)
  fix k e'
  let ?t = "tr @ [ReadReady a, ReadDone b, ReadPending c, CheckTimeout e]"
  assume h: "k < length ?t \<and> ?t ! k = CheckTimeout e'"
  show "3 \<le> k \<and> (\<exists>a b c. ?t ! (k - 3) = ReadReady a \<and> ?t ! (k - 2) = ReadDone b
                           \<and> ?t ! (k - 1) = ReadPending c)"
  proof (cases "k < length tr")
    case True
    with h have "tr ! k = CheckTimeout e'" by (simp add: nth_append)
    with assms True have "3 \<le> k \<and> (\<exists>a b c. tr ! (k - 3) = ReadReady a \<and> tr ! (k - 2) = ReadDone b
                           \<and> tr ! (k - 1) = ReadPending c)"
      unfolding reads_precede_def by blast
    moreover have "k - 3 < length tr" "k - 2 < length tr" "k - 1 < length tr"
      using True by simp_all
    ultimately show ?thesis by (simp add: nth_append)
  next
    case False
    with h have "k = length tr + 3"
      by (auto simp: nth_append nth_Cons split: nat.splits if_splits)
    then show ?thesis by (simp add: nth_append)
  qed
qed


lemma poll_reads_precede:
  "reads_precede tr \<Longrightarrow> poll fuel V ident interval timeout start w tr = Some (r, w', tr')
     \<Longrightarrow> reads_precede tr'"
proof (induction fuel arbitrary: w tr)
  case 0
  then show ?case by simp
next
  case (Suc fuel)
  obtain a w1 where r1: "isOperationReady V ident w = (a, w1)" by (cases "isOperationReady V ident w")
  obtain b w2 where r2: "isOperationDone V ident w1 = (b, w2)" by (cases "isOperationDone V ident w1")
  obtain c w3 where r3: "isOperationPending V ident w2 = (c, w3)" by (cases "isOperationPending V ident w2")
  show ?case
  proof (cases a)
    case None
    with Suc.prems r1 show ?thesis by simp
  next
    case (Some ready)
    note ra = this
    show ?thesis
    proof (cases b)
      case None
      with Suc.prems r1 r2 ra have "tr' = tr @ [ReadReady ready]" by simp
      then show ?thesis using reads_precede_append_noncheck [OF Suc.prems(1), of "[ReadReady ready]"] by simp
    next
      case (Some dn)
      note rb = this
      show ?thesis
      proof (cases c)
        case None
        with Suc.prems r1 r2 r3 ra rb have "tr' = tr @ [ReadReady ready, ReadDone dn]" by simp
        then show ?thesis
          using reads_precede_append_noncheck [OF Suc.prems(1), of "[ReadReady ready, ReadDone dn]"] by simp
      next
        case (Some pending)
        note rc = this
        let ?tr3 = "tr @ [ReadReady ready, ReadDone dn, ReadPending pending]"
        let ?el = "Date_now V w3 - start"
        have p3: "reads_precede ?tr3"
          using reads_precede_append_noncheck [OF Suc.prems(1), of "[ReadReady ready, ReadDone dn, ReadPending pending]"]
          by simp
        have p4: "reads_precede (tr @ [ReadReady ready, ReadDone dn, ReadPending pending, CheckTimeout ?el])"
          by (rule reads_precede_round [OF Suc.prems(1)])
        have p5: "reads_precede (tr @ [ReadReady ready, ReadDone dn, ReadPending pending, CheckTimeout ?el,
                     Sleep (interval * 1000)])"
          using reads_precede_append_noncheck [OF p4, of "[Sleep (interval * 1000)]"] by simp
        show ?thesis
        proof (cases "ready \<or> dn")
          case True
          with Suc.prems r1 r2 r3 ra rb rc have "tr' = ?tr3" by (auto simp: Let_def split: if_splits)
          with p3 show ?thesis by simp
        next
          case False
          show ?thesis
          proof (cases "?el > timeout * 1000")
            case True
            with False Suc.prems r1 r2 r3 ra rb rc
            have "tr' = tr @ [ReadReady ready, ReadDone dn, ReadPending pending, CheckTimeout ?el]"
              by (auto simp: Let_def)
            with p4 show ?thesis by simp
          next
            case el: False
            with False Suc.prems(2) r1 r2 r3 ra rb rc
            have "poll fuel V ident interval timeout start (setTimeout V (interval * 1000) w3)
                    (tr @ [ReadReady ready, ReadDone dn, ReadPending pending, CheckTimeout ?el,
                     Sleep (interval * 1000)]) = Some (r, w', tr')"
              by (simp add: Let_def)
            from Suc.IH [OF p5 this] show ?thesis .
          qed
        qed
      qed
    qed
  qed
qed

text \<open>A result does not depend on the fuel left over.\<close>

lemma poll_fuel_mono:
  "poll fuel V ident interval timeout start w tr = Some r
     \<Longrightarrow> poll (fuel + k) V ident interval timeout start w tr = Some r"
proof (induction fuel arbitrary: w tr)
  case 0
  then show ?case by simp
next
  case (Suc fuel)
  then show ?case
    by (auto simp: Let_def split: prod.splits option.splits if_splits)
qed

text \<open>Liveness: when no read ends the loop and time passes, the timeout does.\<close>

lemma poll_times_out:
  assumes nv: "never_ready_or_done V ident" and tp: "time_passes V ident interval"
  shows "timeout * 1000 - (Date_now V w - start) < int n
           \<Longrightarrow> \<exists>fuel w' tr'. poll fuel V ident interval timeout start w tr = Some (Inl TimeoutError, w', tr')"
proof (induction n arbitrary: w tr)
  case 0
  obtain w1 where r1: "isOperationReady V ident w = (Some False, w1)"
    using nv unfolding never_ready_or_done_def by (metis prod.collapse)
  obtain w2 where r2: "isOperationDone V ident w1 = (Some False, w2)"
    using nv unfolding never_ready_or_done_def by (metis prod.collapse)
  obtain p w3 where r3: "isOperationPending V ident w2 = (Some p, w3)"
    using nv unfolding never_ready_or_done_def by (metis not_Some_eq prod.collapse)
  have "Date_now V w \<le> Date_now V w1" using tp r1 unfolding time_passes_def by (metis snd_conv)
  moreover have "Date_now V w1 \<le> Date_now V w2" using tp r2 unfolding time_passes_def by (metis snd_conv)
  moreover have "Date_now V w2 \<le> Date_now V w3" using tp r3 unfolding time_passes_def by (metis snd_conv)
  ultimately have "timeout * 1000 < Date_now V w3 - start" using 0 by simp
  then have "poll (Suc 0) V ident interval timeout start w tr =
      Some (Inl TimeoutError, w3, tr @ [ReadReady False, ReadDone False, ReadPending p,
            CheckTimeout (Date_now V w3 - start)])"
    using r1 r2 r3 by (simp add: Let_def)
  then show ?case by blast
next
  case (Suc n)
  obtain w1 where r1: "isOperationReady V ident w = (Some False, w1)"
    using nv unfolding never_ready_or_done_def by (metis prod.collapse)
  obtain w2 where r2: "isOperationDone V ident w1 = (Some False, w2)"
    using nv unfolding never_ready_or_done_def by (metis prod.collapse)
  obtain p w3 where r3: "isOperationPending V ident w2 = (Some p, w3)"
    using nv unfolding never_ready_or_done_def by (metis not_Some_eq prod.collapse)
  have "Date_now V w \<le> Date_now V w1" using tp r1 unfolding time_passes_def by (metis snd_conv)
  moreover have "Date_now V w1 \<le> Date_now V w2" using tp r2 unfolding time_passes_def by (metis snd_conv)
  moreover have "Date_now V w2 \<le> Date_now V w3" using tp r3 unfolding time_passes_def by (metis snd_conv)
  ultimately have mono: "Date_now V w \<le> Date_now V w3" by simp
  show ?case
  proof (cases "timeout * 1000 < Date_now V w3 - start")
    case True
    then have "poll (Suc 0) V ident interval timeout start w tr =
        Some (Inl TimeoutError, w3, tr @ [ReadReady False, ReadDone False, ReadPending p,
              CheckTimeout (Date_now V w3 - start)])"
      using r1 r2 r3 by (simp add: Let_def)
    then show ?thesis by blast
  next
    case False
    let ?w4 = "setTimeout V (interval * 1000) w3"
    let ?tr4 = "tr @ [ReadReady False, ReadDone False, ReadPending p,
                      CheckTimeout (Date_now V w3 - start), Sleep (interval * 1000)]"
    have "Date_now V w3 < Date_now V ?w4" using tp unfolding time_passes_def by simp
    with mono Suc.prems have "timeout * 1000 - (Date_now V ?w4 - start) < int n" by simp
    from Suc.IH [OF this, of ?tr4] obtain fuel w' tr'
      where "poll fuel V ident interval timeout start ?w4 ?tr4 = Some (Inl TimeoutError, w', tr')"
      by blast
    then have "poll (Suc fuel) V ident interval timeout start w tr = Some (Inl TimeoutError, w', tr')"
      using False r1 r2 r3 by (simp add: Let_def)
    then show ?thesis by blast
  qed
qed

lemma poll_never_success:
  assumes nv: "never_ready_or_done V ident"
  shows "poll fuel V ident interval timeout start w tr = Some (r, w', tr') \<Longrightarrow> r = Inl TimeoutError"
proof (induction fuel arbitrary: w tr)
  case 0
  then show ?case by simp
next
  case (Suc fuel)
  obtain w1 where r1: "isOperationReady V ident w = (Some False, w1)"
    using nv unfolding never_ready_or_done_def by (metis prod.collapse)
  obtain w2 where r2: "isOperationDone V ident w1 = (Some False, w2)"
    using nv unfolding never_ready_or_done_def by (metis prod.collapse)
  obtain p w3 where r3: "isOperationPending V ident w2 = (Some p, w3)"
    using nv unfolding never_ready_or_done_def by (metis not_Some_eq prod.collapse)
  from Suc.prems r1 r2 r3 show ?case
    by (auto simp: Let_def split: if_splits dest: Suc.IH)
qed

subsection \<open>Example inputs\<close>






lemma mock_never: "never_ready_or_done (mock_venue False False p) ident"
  by (simp add: never_ready_or_done_def mock_venue_def)

lemma mock_time_passes: "0 < interval \<Longrightarrow> time_passes (mock_venue r d p) ident interval"
  by (simp add: time_passes_def mock_venue_def)

lemma mock_timeout_run:
  "cmdVerify_poll 3 (mock_venue False False True) ''0xabcd'' 5 8 0 =
     Some (Inl TimeoutError, 10009,
           [ReadReady False, ReadDone False, ReadPending True, CheckTimeout 3, Sleep 5000,
            ReadReady False, ReadDone False, ReadPending True, CheckTimeout 5006, Sleep 5000,
            ReadReady False, ReadDone False, ReadPending True, CheckTimeout 10009])"
  by (simp add: cmdVerify_poll_def mock_venue_def numeral_3_eq_3 Let_def)



section \<open>Claims\<close>














text \<open>
  Claim C7. If the read of ready answers false and the read of done answers true
  (and the read of pending is answered), the loop returns at once, for every
  identifier, interval and timeout, with the result
  \<^verbatim>\<open>{ opId, ready: false, done: true, pending: false }\<close>.
\<close>

theorem verify_done_is_success:
  assumes "isOperationReady V ident w = (Some False, w1)"
    and "isOperationDone V ident w1 = (Some True, w2)"
    and "isOperationPending V ident w2 = (Some pending, w3)"
  shows "cmdVerify_poll (Suc fuel) V ident interval timeout w =
           Some (Inr \<lparr>v_opId = ident, v_ready = False, v_done = True, v_pending = False\<rparr>, w3,
                 [ReadReady False, ReadDone True, ReadPending pending])"
  using poll_done [OF assms, of fuel interval timeout "Date_now V w" "[]"]
  by (simp add: cmdVerify_poll_def)

theorem verify_done_is_success_witness:
  "cmdVerify_poll (Suc 0) (mock_venue False True True) ''0xabcd'' 5 600 1000 =
     Some (Inr \<lparr>v_opId = ''0xabcd'', v_ready = False, v_done = True, v_pending = False\<rparr>, 1003,
           [ReadReady False, ReadDone True, ReadPending True])"
proof -
  have 1: "isOperationReady (mock_venue False True True) ''0xabcd'' 1000 = (Some False, 1001)"
    and 2: "isOperationDone (mock_venue False True True) ''0xabcd'' 1001 = (Some True, 1002)"
    and 3: "isOperationPending (mock_venue False True True) ''0xabcd'' 1002 = (Some True, 1003)"
    by (simp_all add: mock_venue_def)
  show ?thesis by (rule verify_done_is_success [OF 1 2 3])
qed

text \<open>
  Claim C8. If the executor answers every read and never with ready or done, and
  the clock advances, the loop ends with the timeout error; whenever it returns, it
  returns that error and more than \<open>timeout\<close> seconds have elapsed since it started.
  For any executor, the timeout error is returned only when more than \<open>timeout\<close>
  seconds have elapsed.
\<close>

theorem verify_timeout:
  fixes V :: "'w venue"
  assumes "never_ready_or_done V ident" and "time_passes V ident interval"
  shows "(\<exists>fuel w' tr. cmdVerify_poll fuel V ident interval timeout w = Some (Inl TimeoutError, w', tr))
       \<and> (\<forall>fuel r w' tr. cmdVerify_poll fuel V ident interval timeout w = Some (r, w', tr)
             \<longrightarrow> r = Inl TimeoutError \<and> timeout * 1000 < Date_now V w' - Date_now V w)
       \<and> (\<forall>fuel (U :: 'w venue) w0 w' tr.
             cmdVerify_poll fuel U ident interval timeout w0 = Some (Inl TimeoutError, w', tr)
             \<longrightarrow> timeout * 1000 < Date_now U w' - Date_now U w0)"
proof -
  have "timeout * 1000 - (Date_now V w - Date_now V w) < int (nat (timeout * 1000) + 1)" by simp
  from poll_times_out [OF assms this]
  have live: "\<exists>fuel w' tr. cmdVerify_poll fuel V ident interval timeout w = Some (Inl TimeoutError, w', tr)"
    by (simp add: cmdVerify_poll_def)
  have only: "r = Inl TimeoutError \<and> timeout * 1000 < Date_now V w' - Date_now V w"
    if run: "cmdVerify_poll fuel V ident interval timeout w = Some (r, w', tr)" for fuel r w' tr
  proof -
    from run have r: "r = Inl TimeoutError"
      using poll_never_success [OF assms(1)] by (simp add: cmdVerify_poll_def)
    with run show ?thesis
      using poll_timeout_elapsed [of fuel V ident interval timeout "Date_now V w" w "[]" w' tr]
      by (simp add: cmdVerify_poll_def)
  qed
  have safe: "timeout * 1000 < Date_now U w' - Date_now U w0"
    if "cmdVerify_poll fuel U ident interval timeout w0 = Some (Inl TimeoutError, w', tr)"
    for fuel and U :: "'w venue" and w0 w' tr
    using that poll_timeout_elapsed [of fuel U ident interval timeout "Date_now U w0" w0 "[]" w' tr]
    by (simp add: cmdVerify_poll_def)
  have only': "\<forall>fuel r w' tr. cmdVerify_poll fuel V ident interval timeout w = Some (r, w', tr)
             \<longrightarrow> r = Inl TimeoutError \<and> timeout * 1000 < Date_now V w' - Date_now V w"
    using only by (intro allI impI)
  have safe': "\<forall>fuel (U :: 'w venue) w0 w' tr. cmdVerify_poll fuel U ident interval timeout w0 = Some (Inl TimeoutError, w', tr)
             \<longrightarrow> timeout * 1000 < Date_now U w' - Date_now U w0"
    using safe by (intro allI impI)
  from live only' safe' show ?thesis by (intro conjI)
qed

theorem verify_timeout_witness:
  "never_ready_or_done (mock_venue False False True) ''0xabcd''
   \<and> time_passes (mock_venue False False True) ''0xabcd'' 5
   \<and> (\<exists>fuel w' tr. cmdVerify_poll fuel (mock_venue False False True) ''0xabcd'' 5 8 0
                       = Some (Inl TimeoutError, w', tr))
   \<and> cmdVerify_poll 3 (mock_venue False False True) ''0xabcd'' 5 8 0 =
     Some (Inl TimeoutError, 10009,
           [ReadReady False, ReadDone False, ReadPending True, CheckTimeout 3, Sleep 5000,
            ReadReady False, ReadDone False, ReadPending True, CheckTimeout 5006, Sleep 5000,
            ReadReady False, ReadDone False, ReadPending True, CheckTimeout 10009])
   \<and> (8::int) * 1000 < Date_now (mock_venue False False True) 10009 - Date_now (mock_venue False False True) 0"
proof -
  have n: "never_ready_or_done (mock_venue False False True) ''0xabcd''" by (rule mock_never)
  have t: "time_passes (mock_venue False False True) ''0xabcd'' 5" by (rule mock_time_passes) simp
  note th = verify_timeout [OF n t, of 8 0]
  from th have "\<exists>fuel w' tr. cmdVerify_poll fuel (mock_venue False False True) ''0xabcd'' 5 8 0
                       = Some (Inl TimeoutError, w', tr)" by blast
  moreover from th mock_timeout_run
  have "(8::int) * 1000 < Date_now (mock_venue False False True) 10009 - Date_now (mock_venue False False True) 0"
    by blast
  ultimately show ?thesis using n t mock_timeout_run by blast
qed



text \<open>
  Claim C10. In every run of the loop, each evaluation of the timeout condition
  comes directly after the reads of ready, done and pending, and a timeout error is
  returned only from such an evaluation. With a timeout of 0 seconds, an operation
  that is ready or done at the first reads gives a result, not the timeout error.
\<close>

theorem reads_before_timeout_check:
  "(\<forall>r w' tr. cmdVerify_poll fuel V ident interval timeout w = Some (r, w', tr)
       \<longrightarrow> reads_precede tr
           \<and> (r = Inl TimeoutError \<longrightarrow> tr \<noteq> [] \<and> (\<exists>e. last tr = CheckTimeout e)))
   \<and> (isOperationReady V ident w = (Some rd, w1)
        \<and> isOperationDone V ident w1 = (Some dn, w2)
        \<and> isOperationPending V ident w2 = (Some pending, w3)
        \<and> (rd \<or> dn)
      \<longrightarrow> (\<exists>res. cmdVerify_poll (Suc n) V ident interval 0 w =
                    Some (Inr res, w3, [ReadReady rd, ReadDone dn, ReadPending pending])
                \<and> (v_ready res \<or> v_done res)))"
proof (rule conjI)
  show "\<forall>r w' tr. cmdVerify_poll fuel V ident interval timeout w = Some (r, w', tr)
       \<longrightarrow> reads_precede tr
           \<and> (r = Inl TimeoutError \<longrightarrow> tr \<noteq> [] \<and> (\<exists>e. last tr = CheckTimeout e))"
  proof (intro allI impI conjI)
    fix r w' tr
    assume run: "cmdVerify_poll fuel V ident interval timeout w = Some (r, w', tr)"
    have "reads_precede []" by (simp add: reads_precede_def)
    from poll_reads_precede [OF this] run show "reads_precede tr"
      by (simp add: cmdVerify_poll_def)
    assume "r = Inl TimeoutError"
    with run show "tr \<noteq> []" "\<exists>e. last tr = CheckTimeout e"
      using poll_timeout_last [of fuel V ident interval timeout "Date_now V w" w "[]" w' tr]
      by (simp_all add: cmdVerify_poll_def)
  qed
next
  show "isOperationReady V ident w = (Some rd, w1)
        \<and> isOperationDone V ident w1 = (Some dn, w2)
        \<and> isOperationPending V ident w2 = (Some pending, w3)
        \<and> (rd \<or> dn)
      \<longrightarrow> (\<exists>res. cmdVerify_poll (Suc n) V ident interval 0 w =
                    Some (Inr res, w3, [ReadReady rd, ReadDone dn, ReadPending pending])
                \<and> (v_ready res \<or> v_done res))"
    by (auto simp: cmdVerify_poll_def Let_def)
qed

theorem reads_before_timeout_check_witness:
  "reads_precede
     [ReadReady False, ReadDone False, ReadPending True, CheckTimeout 3, Sleep 5000,
      ReadReady False, ReadDone False, ReadPending True, CheckTimeout 5006, Sleep 5000,
      ReadReady False, ReadDone False, ReadPending True, CheckTimeout 10009]
   \<and> (\<exists>res. cmdVerify_poll (Suc 0) (mock_venue True False True) ''0xabcd'' 5 0 0 =
              Some (Inr res, 3, [ReadReady True, ReadDone False, ReadPending True])
            \<and> (v_ready res \<or> v_done res))
   \<and> (\<exists>res. cmdVerify_poll (Suc 0) (mock_venue False True False) ''0xabcd'' 5 0 0 =
              Some (Inr res, 3, [ReadReady False, ReadDone True, ReadPending False])
            \<and> (v_ready res \<or> v_done res))"
proof -
  have a: "reads_precede
     [ReadReady False, ReadDone False, ReadPending True, CheckTimeout 3, Sleep 5000,
      ReadReady False, ReadDone False, ReadPending True, CheckTimeout 5006, Sleep 5000,
      ReadReady False, ReadDone False, ReadPending True, CheckTimeout 10009]"
    using reads_before_timeout_check [of 3 "mock_venue False False True" "''0xabcd''" 5 8 0]
      mock_timeout_run by blast
  have b: "\<exists>res. cmdVerify_poll (Suc 0) (mock_venue True False True) ''0xabcd'' 5 0 0 =
              Some (Inr res, 3, [ReadReady True, ReadDone False, ReadPending True])
            \<and> (v_ready res \<or> v_done res)"
    using reads_before_timeout_check [of 0 "mock_venue True False True" "''0xabcd''" 5 0 0
        True 1 False 2 True 3 0]
    by (simp add: mock_venue_def)
  have c: "\<exists>res. cmdVerify_poll (Suc 0) (mock_venue False True False) ''0xabcd'' 5 0 0 =
              Some (Inr res, 3, [ReadReady False, ReadDone True, ReadPending False])
            \<and> (v_ready res \<or> v_done res)"
    using reads_before_timeout_check [of 0 "mock_venue False True False" "''0xabcd''" 5 0 0
        False 1 True 2 False 3 0]
    by (simp add: mock_venue_def)
  from a b c show ?thesis by (intro conjI)
qed

end
